theory Spec2Isabelle
  imports Main "HOL-Library.Sublist" "HOL-Library.AList"
begin

section \<open>JavaScript strings as the plugin uses them\<close>

text \<open>
  The plugin (\<^verbatim>\<open>src/plugins/stylesheet/SassPlugin.ts\<close>) works on JavaScript strings.
  A string is modelled as a \<^typ>\<open>string\<close>, one \<^typ>\<open>char\<close> per code unit (code units
  below 256). Every operation below is the primitive of the same name of the
  JavaScript standard library, restricted to the way the plugin calls it.
\<close>

text \<open>
  White space and line terminators, the class \<^verbatim>\<open>\s\<close> of a regular expression and the
  characters \<^verbatim>\<open>trim()\<close> removes: tab, line feed, vertical tab, form feed, carriage
  return, space and no-break space.
\<close>

definition is_space :: "char \<Rightarrow> bool" where
  "is_space c = (c \<in> {CHR 0x09, CHR 0x0A, CHR 0x0B, CHR 0x0C, CHR 0x0D, CHR 0x20, CHR 0xA0})"

text \<open>\<^verbatim>\<open>s.trim()\<close>\<close>

definition trim :: "string \<Rightarrow> string" where
  "trim s = rev (dropWhile is_space (rev (dropWhile is_space s)))"

text \<open>\<^verbatim>\<open>s.slice(1, -1)\<close>: without the first and the last code unit; empty when \<open>s\<close> has
  fewer than three.\<close>

definition slice_1_m1 :: "string \<Rightarrow> string" where
  "slice_1_m1 s = butlast (tl s)"

text \<open>
  \<^verbatim>\<open>s.replace(pat, rep)\<close> with a string pattern: the first occurrence of \<open>pat\<close>
  (searched left to right) is replaced, nothing else. The plugin's replacement texts
  (the empty string and \<^verbatim>\<open>.sass\<close>) hold no \<^verbatim>\<open>$\<close> pattern.
\<close>

fun js_replace :: "string \<Rightarrow> string \<Rightarrow> string \<Rightarrow> string" where
  "js_replace [] pat rep = (if pat = [] then rep else [])"
| "js_replace (c # cs) pat rep =
     (if prefix pat (c # cs) then rep @ drop (length pat) (c # cs)
      else c # js_replace cs pat rep)"

text \<open>\<^verbatim>\<open>s.replace(/\r?\n|\r/g, '')\<close>: every carriage return and line feed is removed.\<close>

definition strip_line_breaks :: "string \<Rightarrow> string" where
  "strip_line_breaks s = filter (\<lambda>c. c \<noteq> CHR 0x0D \<and> c \<noteq> CHR 0x0A) s"

text \<open>\<^verbatim>\<open>s.split(sep)\<close> for a one-character separator: never the empty array.\<close>

fun split :: "char \<Rightarrow> string \<Rightarrow> string list" where
  "split sep [] = [[]]"
| "split sep (c # cs) =
     (if c = sep then [] # split sep cs
      else (case split sep cs of
              seg # segs \<Rightarrow> (c # seg) # segs
            | [] \<Rightarrow> [[c]]))"

text \<open>\<^verbatim>\<open>parts.join(sep)\<close>\<close>

fun join :: "string \<Rightarrow> string list \<Rightarrow> string" where
  "join sep [] = []"
| "join sep [x] = x"
| "join sep (x # y # ys) = x @ sep @ join sep (y # ys)"

section \<open>The POSIX \<^verbatim>\<open>path.join\<close> of Node.js\<close>

text \<open>
  \<^verbatim>\<open>normalizeString\<close> walks the segments between separators: an empty segment and
  \<^verbatim>\<open>.\<close> are dropped, \<^verbatim>\<open>..\<close> removes the segment before it (or is kept, when
  there is none to remove and the path is relative), any other segment is kept.
\<close>

definition normalize_segment :: "bool \<Rightarrow> string list \<Rightarrow> string \<Rightarrow> string list" where
  "normalize_segment allowAboveRoot res seg =
     (if seg = [] \<or> seg = ''.'' then res
      else if seg = ''..'' then
        (if res \<noteq> [] \<and> last res \<noteq> ''..'' then butlast res
         else if allowAboveRoot then res @ [''..''] else res)
      else res @ [seg])"

definition normalizeString :: "string \<Rightarrow> bool \<Rightarrow> string" where
  "normalizeString path allowAboveRoot =
     join ''/'' (foldl (normalize_segment allowAboveRoot) [] (split CHR ''/'' path))"

definition normalize :: "string \<Rightarrow> string" where
  "normalize path =
     (if path = [] then ''.''
      else
        let isAbsolute = (hd path = CHR ''/'');
            trailingSeparator = (last path = CHR ''/'');
            p = normalizeString path (\<not> isAbsolute)
        in if p = [] then (if isAbsolute then ''/'' else if trailingSeparator then ''./'' else ''.'')
           else
             let p' = (if trailingSeparator then p @ ''/'' else p)
             in if isAbsolute then ''/'' @ p' else p')"

text \<open>\<^verbatim>\<open>path.join(a, b)\<close>: the non-empty arguments joined by a separator, then normalised.\<close>

definition path_join :: "string \<Rightarrow> string \<Rightarrow> string" where
  "path_join a b =
     (let args = filter (\<lambda>arg. arg \<noteq> []) [a, b]
      in if args = [] then ''.'' else normalize (join ''/'' args))"

section \<open>The file system\<close>

text \<open>
  \<^verbatim>\<open>fs.readFileSync(path, 'utf8')\<close> returns the text of the file or throws an error
  that carries a \<^verbatim>\<open>code\<close> (\<^verbatim>\<open>ENOENT\<close> when the file does not exist). The file
  system is a function from the path as passed to the outcome of reading it.
\<close>

datatype read_result = Contents string | Failure string

type_synonym filesystem = "string \<Rightarrow> read_result"

section \<open>fetchFile\<close>

text \<open>
  \<^verbatim>\<open>fetchFile(path)\<close>. The model returns the paths it passed to
  \<^verbatim>\<open>readFileSync\<close>, in order, and the outcome: \<open>Inr\<close> the returned text, \<open>Inl\<close> the
  code of the error it throws. The console message of the fallback is not modelled.
\<close>

definition fetchFile :: "filesystem \<Rightarrow> string \<Rightarrow> string list \<times> (string + string)" where
  "fetchFile fs path =
     (case fs path of
        Contents currentContents \<Rightarrow> ([path], Inr currentContents)
      | Failure code \<Rightarrow>
          if code = ''ENOENT'' then
            (let alt = js_replace path ''.scss'' ''.sass''
             in case fs alt of
                  Contents currentContents \<Rightarrow> ([path, alt], Inr currentContents)
                | Failure code' \<Rightarrow> ([path, alt], Inr []))
          else ([path], Inl code))"

section \<open>The import pattern\<close>

text \<open>
  \<^verbatim>\<open>importRegexp = /@import\s+(?:'([^']+)'|"([^"]+)"|([^\s;]+))/g\<close>.

  At a position, the pattern matches the literal \<^verbatim>\<open>@import\<close>, then white space, then one
  of three alternatives tried in order: a text in single quotes, a text in double quotes
  (each at least one character long, holding none of its quote), or a run of characters
  that are neither white space nor a semicolon. \<^verbatim>\<open>\s+\<close> is greedy; giving back white
  space never helps, since each alternative starts with a character that is not white
  space. A quantified class is greedy as well, and giving back a character that is not a
  quote never makes the closing quote match.
\<close>

definition match_quoted :: "char \<Rightarrow> string \<Rightarrow> string option" where
  "match_quoted q s =
     (case s of
        [] \<Rightarrow> None
      | c # cs \<Rightarrow>
          if c = q \<and> takeWhile (\<lambda>x. x \<noteq> q) cs \<noteq> [] \<and> dropWhile (\<lambda>x. x \<noteq> q) cs \<noteq> []
          then Some (q # takeWhile (\<lambda>x. x \<noteq> q) cs @ [q])
          else None)"

definition match_bare :: "string \<Rightarrow> string option" where
  "match_bare s =
     (if takeWhile (\<lambda>c. \<not> is_space c \<and> c \<noteq> CHR '';'') s = [] then None
      else Some (takeWhile (\<lambda>c. \<not> is_space c \<and> c \<noteq> CHR '';'') s))"

definition match_target :: "string \<Rightarrow> string option" where
  "match_target s =
     (case match_quoted (CHR 0x27) s of
        Some m \<Rightarrow> Some m
      | None \<Rightarrow>
          (case match_quoted (CHR 0x22) s of
             Some m \<Rightarrow> Some m
           | None \<Rightarrow> match_bare s))"

text \<open>The text the pattern matches at the start of \<open>s\<close>, if it matches there.\<close>

definition match_here :: "string \<Rightarrow> string option" where
  "match_here s =
     (if prefix ''@import'' s \<and> takeWhile is_space (drop 7 s) \<noteq> [] then
        (case match_target (dropWhile is_space (drop 7 s)) of
           None \<Rightarrow> None
         | Some t \<Rightarrow> Some (''@import'' @ takeWhile is_space (drop 7 s) @ t))
      else None)"

text \<open>
  \<^verbatim>\<open>s.match(importRegexp)\<close> with the global flag: the matched texts, leftmost first,
  the search going on after each match. The empty list stands for \<^verbatim>\<open>null\<close>.
  The count \<open>skip\<close> is the number of characters of the last match still to pass over.
\<close>

fun scan :: "nat \<Rightarrow> string \<Rightarrow> string list" where
  "scan skip [] = []"
| "scan (Suc skip) (c # cs) = scan skip cs"
| "scan 0 (c # cs) =
     (case match_here (c # cs) of
        Some m \<Rightarrow> m # scan (length m - 1) cs
      | None \<Rightarrow> scan 0 cs)"

definition match_all :: "string \<Rightarrow> string list" where
  "match_all s = scan 0 s"

section \<open>read: inlining the imports of a file\<close>

text \<open>
  An outcome of \<^verbatim>\<open>read\<close>: \<open>Some (Inr text)\<close> when it returns \<open>text\<close>,
  \<open>Some (Inl code)\<close> when a read error with that code leaves it as an exception, and
  \<open>None\<close> when the recursion is deeper than the call stack allows (\<^verbatim>\<open>read\<close> has no
  cycle detection).
\<close>

type_synonym 'a outcome = "(string + 'a) option"

text \<open>\<^verbatim>\<open>forEach\<close> over the matches, each callback updating \<^verbatim>\<open>currentContents\<close>; an
  exception in a callback ends the loop.\<close>

fun forEach :: "('a \<Rightarrow> 's \<Rightarrow> 's outcome) \<Rightarrow> 'a list \<Rightarrow> 's \<Rightarrow> 's outcome" where
  "forEach f [] s = Some (Inr s)"
| "forEach f (x # xs) s =
     (case f x s of
        None \<Rightarrow> None
      | Some (Inl e) \<Rightarrow> Some (Inl e)
      | Some (Inr s') \<Rightarrow> forEach f xs s')"

text \<open>\<^verbatim>\<open>importStatement.replace('@import ', '').trim().slice(1, -1) || ''\<close>\<close>

definition pathInImport :: "string \<Rightarrow> string" where
  "pathInImport importStatement = slice_1_m1 (trim (js_replace importStatement ''@import '' []))"

text \<open>The path handed to the recursive call; \<open>cwd\<close> is \<^verbatim>\<open>process.cwd()\<close>, \<open>parts\<close> the
  segments of the containing file's path without the last.\<close>

definition pathToRead :: "string \<Rightarrow> string list \<Rightarrow> string \<Rightarrow> string" where
  "pathToRead cwd parts p =
     (if p \<noteq> [] \<and> hd p \<noteq> CHR ''/'' then
        (let directoryOfFile = js_replace (join ''/'' parts) cwd []
         in path_join cwd (''/'' @ directoryOfFile @ ''/'' @ p))
      else p)"

text \<open>
  The body of the loop. \<open>rd\<close> is the recursive call \<^verbatim>\<open>this.read(pathToRead, contents)\<close>.
  The text with the line breaks removed is computed and dropped, as in the source: the
  statement \<^verbatim>\<open>currentContents.replace(/\r?\n|\r/g, '');\<close> assigns its value to nothing.
\<close>

definition import_step ::
  "(string \<Rightarrow> string outcome) \<Rightarrow> string \<Rightarrow> string list \<Rightarrow> string \<Rightarrow> string \<Rightarrow> string outcome" where
  "import_step rd cwd parts importStatement currentContents =
     (let target = pathToRead cwd parts (pathInImport importStatement);
          removed = trim (js_replace currentContents (importStatement @ '';'') []);
          dropped = strip_line_breaks removed
      in case rd target of
           None \<Rightarrow> None
         | Some (Inl e) \<Rightarrow> Some (Inl e)
         | Some (Inr child) \<Rightarrow> Some (Inr (removed @ child)))"

text \<open>The file name \<^verbatim>\<open>read\<close> fetches: \<^verbatim>\<open>.scss\<close> is appended when the last segment
  has no dot.\<close>

definition with_extension :: "string \<Rightarrow> string" where
  "with_extension file =
     (if CHR ''.'' \<in> set (last (split CHR ''/'' file)) then file else file @ ''.scss'')"

fun read :: "nat \<Rightarrow> filesystem \<Rightarrow> string \<Rightarrow> string \<Rightarrow> string \<Rightarrow> string outcome" where
  "read 0 fs cwd file contents = None"
| "read (Suc depth) fs cwd file contents =
     (let parts = butlast (split CHR ''/'' file)
      in case snd (fetchFile fs (with_extension file)) of
           Inl e \<Rightarrow> Some (Inl e)
         | Inr fetched \<Rightarrow>
             (case forEach (import_step (\<lambda>p. read depth fs cwd p contents) cwd parts)
                     (match_all fetched) fetched of
                None \<Rightarrow> None
              | Some (Inl e) \<Rightarrow> Some (Inl e)
              | Some (Inr currentContents) \<Rightarrow> Some (Inr (contents @ currentContents))))"

section \<open>Vocabulary for the properties of read\<close>

text \<open>
  The outputs of the recursive calls for a list of targets, in order, up to the first
  one that does not return.
\<close>

fun read_children :: "(string \<Rightarrow> string outcome) \<Rightarrow> string list \<Rightarrow> string list outcome" where
  "read_children rd [] = Some (Inr [])"
| "read_children rd (t # ts) =
     (case rd t of
        None \<Rightarrow> None
      | Some (Inl e) \<Rightarrow> Some (Inl e)
      | Some (Inr child) \<Rightarrow>
          (case read_children rd ts of
             None \<Rightarrow> None
           | Some (Inl e) \<Rightarrow> Some (Inl e)
           | Some (Inr children) \<Rightarrow> Some (Inr (child # children))))"

text \<open>
  The text that the loop builds from the working text and the outputs of the children:
  for each statement in turn, the first occurrence of the statement with a semicolon is
  removed, the text is trimmed and the child's output is put at its end.
\<close>

fun splice :: "string \<Rightarrow> (string \<times> string) list \<Rightarrow> string" where
  "splice cur [] = cur"
| "splice cur ((importStatement, child) # rest) =
     splice (trim (js_replace cur (importStatement @ '';'') []) @ child) rest"



section \<open>Example file systems\<close>

text \<open>A directory that holds \<^verbatim>\<open>dir/sub/partial.scss\<close> and nothing else.\<close>

definition fs_scss_only :: filesystem where
  "fs_scss_only p =
     (if p = ''dir/sub/partial.scss'' then Contents ''.p{}'' else Failure ''ENOENT'')"

text \<open>A directory that holds \<^verbatim>\<open>dir/sub/partial.sass\<close> and nothing else.\<close>

definition fs_sass_only :: filesystem where
  "fs_sass_only p =
     (if p = ''dir/sub/partial.sass'' then Contents ''.q{}'' else Failure ''ENOENT'')"

text \<open>A file of two rules on two lines, with no import.\<close>

definition fs_two_lines :: filesystem where
  "fs_two_lines p =
     (if p = ''a.scss'' then Contents ''.a{}\<newline>.b{}'' else Failure ''ENOENT'')"

text \<open>A file of three lines, the second an import.\<close>

definition fs_lines_and_import :: filesystem where
  "fs_lines_and_import p =
     (if p = ''a.scss'' then Contents ''.a{}\<newline>@import \"b\";\<newline>.x{}''
      else if p = ''/proj/b.scss'' then Contents ''.b{}''
      else Failure ''ENOENT'')"

text \<open>\<^verbatim>\<open>a.scss\<close> imports \<^verbatim>\<open>b\<close>, which imports \<^verbatim>\<open>c\<close>; the working directory is
  \<^verbatim>\<open>/proj\<close>.\<close>

definition fs_chain :: filesystem where
  "fs_chain p =
     (if p = ''a.scss'' then Contents ''.a{} @import \"b\";''
      else if p = ''/proj/b.scss'' then Contents ''.b{} @import \"c\";''
      else if p = ''/proj/c.scss'' then Contents ''.c{}''
      else Failure ''ENOENT'')"



text \<open>One import, whose target runs up to the next white space, and later the same text
  once more with a semicolon.\<close>

definition fs_overlap :: filesystem where
  "fs_overlap p =
     (if p = ''a.scss'' then Contents ''@import x@import x@import;'' else Failure ''ENOENT'')"

text \<open>One import with no semicolon after it.\<close>

definition fs_unterminated :: filesystem where
  "fs_unterminated p =
     (if p = ''a.scss'' then Contents ''.a{} @import \"b\" .x{}''
      else if p = ''/proj/b.scss'' then Contents ''.b{}''
      else Failure ''ENOENT'')"

section \<open>transform: the file object, the host and the compiler\<close>

text \<open>
  \<^verbatim>\<open>transform(file)\<close> works on a \<^verbatim>\<open>File\<close> and its \<^verbatim>\<open>WorkFlowContext\<close>, calls their
  methods and the compiler \<^verbatim>\<open>node-sass\<close>. The two classes, \<^verbatim>\<open>Config\<close> and the
  compiler are not part of the plugin's source: the fields that \<^verbatim>\<open>transform\<close> reads or
  writes are fields of the records below, and the methods it calls are parameters, the
  fields of a \<open>host\<close>.
\<close>

text \<open>A JavaScript function passed through unread (a custom importer, a custom function).\<close>

typedecl js_function

text \<open>\<^verbatim>\<open>file.info\<close>\<close>

record file_info =
  fuseBoxPath :: string
  absDir :: string

text \<open>
  The \<^verbatim>\<open>File\<close>. \<open>contents\<close> is declared a string; an undefined \<^verbatim>\<open>contents\<close> is as
  false as the empty string in the one test \<^verbatim>\<open>transform\<close> makes, and is modelled by it.
  \<open>analysis_dependencies\<close> is \<^verbatim>\<open>file.analysis.dependencies\<close>. \<open>errors\<close> is the error
  list that \<^verbatim>\<open>file.addError\<close> appends to.
\<close>

record File =
  contents :: string
  absPath :: string
  info :: file_info
  bustCSSCache :: bool
  cssDependencies :: "string list"
  sourceMap :: "string option"
  analysis_dependencies :: "string list"
  errors :: "string list"

text \<open>\<^verbatim>\<open>file.context\<close>; \<open>internals\<close> is all of the context that the plugin does not read
  (the cache store, the bundle, the extension overrides).\<close>

record 'c WorkFlowContext =
  homeDir :: string
  appRoot :: string
  useCache :: bool
  internals :: 'c

text \<open>What a method of the file or the context may read and change.\<close>

type_synonym 'c heap = "File \<times> 'c WorkFlowContext"

text \<open>\<^verbatim>\<open>this.options\<close>: a field that is not set is \<open>None\<close>; \<open>sass_functions\<close> is
  the field \<^verbatim>\<open>functions\<close>.\<close>

datatype importer_option = ImporterUnset | ImporterFlag bool | ImporterFunc js_function

record SassPluginOptions =
  includePaths :: "string list option"
  macros :: "(string \<times> string) list option"
  importer :: importer_option
  cache :: "bool option"
  indentedSyntax :: "bool option"
  resources :: "string list option"
  sass_functions :: "(string \<times> js_function) list option"

text \<open>
  \<^verbatim>\<open>options.importer\<close> as the compiler gets it: the user's value, or the built-in hook
  (lines 136 to 154) when the user's value is \<^verbatim>\<open>true\<close>. The hook runs inside the
  compiler; its body is not modelled.
\<close>

datatype importer_value = NoImporter | BooleanImporter bool | CustomImporter js_function | BuiltinImporter

text \<open>The \<^verbatim>\<open>options\<close> object handed to \<^verbatim>\<open>sass.render\<close>.\<close>

record render_options =
  o_data :: string
  o_file :: string
  o_sourceMap :: bool
  o_outFile :: string
  o_sourceMapContents :: bool
  o_includePaths :: "string list"
  o_macros :: "(string \<times> string) list"
  o_importer :: importer_value
  o_cache :: "bool option"
  o_indentedSyntax :: "bool option"
  o_resources :: "string list option"
  o_functions :: "(string \<times> js_function) list option"

text \<open>The second argument of \<^verbatim>\<open>context.extractCSSDependencies\<close>.\<close>

record extract_options =
  paths :: "string list"
  content :: string
  sassStyle :: bool
  x_importer :: importer_value
  extensions :: "string list"

text \<open>The error and the result that the compiler passes to its callback.\<close>

record sass_error =
  err_message :: string
  err_file :: string
  err_line :: nat
  err_column :: nat

record sass_result =
  result_css :: string
  result_map :: "string option"

text \<open>
  The compiler calls back once, with an error or with a result, or (when it hangs) never.
\<close>

datatype render_outcome = RenderError sass_error | RenderResult sass_result | NoCallback

text \<open>
  The methods that \<^verbatim>\<open>transform\<close> calls, and the constant \<^verbatim>\<open>Config.NODE_MODULES_DIR\<close>.
  A method of the file or of the context is any function on the heap; the compiler is any
  function from the options to an outcome.
\<close>

record 'c host =
  addStringDependency :: "string \<Rightarrow> 'c heap \<Rightarrow> 'c heap"
  isCSSCached :: "string \<Rightarrow> 'c heap \<Rightarrow> bool \<times> 'c heap"
  loadContents :: "'c heap \<Rightarrow> 'c heap"
  extractCSSDependencies :: "extract_options \<Rightarrow> 'c heap \<Rightarrow> string list \<times> 'c heap"
  render :: "render_options \<Rightarrow> render_outcome"
  writeStaticCache :: "string option \<Rightarrow> string \<Rightarrow> 'c heap \<Rightarrow> 'c heap"
  NODE_MODULES_DIR :: string

text \<open>
  A call of a method or of the compiler, with its arguments; \<open>WriteStaticCache\<close> holds the
  file as it is when the cache is written.
\<close>

datatype call =
    AddStringDependency string
  | IsCSSCached string
  | LoadContents
  | ExtractCSSDependencies extract_options
  | Render render_options
  | AddError string
  | WriteStaticCache File "string option" string

text \<open>The state that \<^verbatim>\<open>transform\<close> runs in: the file, its context and the calls made so
  far, oldest first.\<close>

record 'c world =
  the_file :: File
  ctx :: "'c WorkFlowContext"
  calls :: "call list"

text \<open>What \<^verbatim>\<open>transform\<close> returns: nothing, or a promise in the state it ends in.\<close>

datatype promise = Resolved | Rejected string | Pending

datatype return_value = Undefined | Promise promise

text \<open>A call of a method: the heap changes as the method says and the call is recorded.\<close>

definition invoke :: "call \<Rightarrow> ('c heap \<Rightarrow> 'c heap) \<Rightarrow> 'c world \<Rightarrow> 'c world" where
  "invoke c method w =
     (case method (the_file w, ctx w) of
        (f, x) \<Rightarrow> w\<lparr>the_file := f, ctx := x, calls := calls w @ [c]\<rparr>)"

text \<open>Modelled from the spec: \<^verbatim>\<open>file.addError(message)\<close>, a method of the \<^verbatim>\<open>File\<close>
  class that is outside the plugin's source, appends the message to the file's error
  list.\<close>

definition addError :: "string \<Rightarrow> 'c heap \<Rightarrow> 'c heap" where
  "addError msg hp = (case hp of (f, x) \<Rightarrow> (f\<lparr>errors := errors f @ [msg]\<rparr>, x))"

text \<open>A number in a template literal: a natural number below ten to the power of 21
  prints in decimal. From there on JavaScript prints an exponent, which the model does not follow;
  no line or column of a compiler's error is that large.\<close>

fun decimal :: "nat \<Rightarrow> string" where
  "decimal n =
     (if n < 10 then [''0123456789'' ! n]
      else decimal (n div 10) @ [''0123456789'' ! (n mod 10)])"

declare decimal.simps [simp del]

text \<open>The module variable \<^verbatim>\<open>sassResources\<close> (line 21) is declared and assigned nowhere.\<close>

definition sassResources :: "string option" where
  "sassResources = None"

text \<open>\<^verbatim>\<open>Object.assign(target, source)\<close> on objects with string keys: a key of the source
  that the target has keeps its place, a new key goes to the end. (A key that reads as
  an array index would be listed before the others; the macro keys are none of those,
  and the order of the keys is read by the built-in import hook only.)\<close>

definition object_assign :: "(string \<times> 'v) list \<Rightarrow> (string \<times> 'v) list \<Rightarrow> (string \<times> 'v) list" where
  "object_assign target source = foldl (\<lambda>obj (k, v). AList.update k v obj) target source"

section \<open>transform\<close>

text \<open>Lines 96 to 99: the string dependency is added, then the cache is asked.\<close>

definition cache_check :: "'c host \<Rightarrow> 'c world \<Rightarrow> bool \<times> 'c world" where
  "cache_check h w =
     (let w1 = invoke (AddStringDependency ''fuse-box-css'')
                 (addStringDependency h ''fuse-box-css'') w
      in case isCSSCached h ''sass'' (the_file w1, ctx w1) of
           (cached, f, x) \<Rightarrow>
             (cached, w1\<lparr>the_file := f, ctx := x, calls := calls w1 @ [IsCSSCached ''sass'']\<rparr>))"

text \<open>Lines 102 and 103.\<close>

definition mark_and_load :: "'c host \<Rightarrow> 'c world \<Rightarrow> 'c world" where
  "mark_and_load h w =
     invoke LoadContents (loadContents h) (w\<lparr>the_file := (the_file w)\<lparr>bustCSSCache := True\<rparr>\<rparr>)"

text \<open>Lines 112 to 157: the options for the compiler.\<close>

definition build_options :: "'c host \<Rightarrow> SassPluginOptions \<Rightarrow> 'c world \<Rightarrow> render_options" where
  "build_options h this_options w =
     \<lparr>o_data =
        (case sassResources of
           Some r \<Rightarrow> if r \<noteq> [] then r @ contents (the_file w) else contents (the_file w)
         | None \<Rightarrow> contents (the_file w)),
      o_file = homeDir (ctx w) @ ''/'' @ fuseBoxPath (info (the_file w)),
      o_sourceMap = True,
      o_outFile = fuseBoxPath (info (the_file w)),
      o_sourceMapContents = True,
      o_includePaths =
        (case includePaths this_options of None \<Rightarrow> [] | Some ps \<Rightarrow> ps) @
        [absDir (info (the_file w))],
      o_macros =
        object_assign
          [(''$homeDir'', homeDir (ctx w)),
           (''$appRoot'', appRoot (ctx w)),
           (''~'', NODE_MODULES_DIR h @ ''/'')]
          (case macros this_options of None \<Rightarrow> [] | Some ms \<Rightarrow> ms),
      o_importer =
        (case importer this_options of
           ImporterUnset \<Rightarrow> NoImporter
         | ImporterFlag b \<Rightarrow> if b then BuiltinImporter else BooleanImporter b
         | ImporterFunc g \<Rightarrow> CustomImporter g),
      o_cache = cache this_options,
      o_indentedSyntax = indentedSyntax this_options,
      o_resources = resources this_options,
      o_functions = sass_functions this_options\<rparr>"

text \<open>Lines 159 to 165: the argument of the dependency extraction.\<close>

definition build_extract_options :: "render_options \<Rightarrow> 'c world \<Rightarrow> extract_options" where
  "build_extract_options options w =
     \<lparr>paths = o_includePaths options,
      content = contents (the_file w),
      sassStyle = True,
      x_importer = o_importer options,
      extensions = [''css'', if o_indentedSyntax options = Some True then ''sass'' else ''scss'']\<rparr>"

text \<open>Lines 108 to 166: the options are built, the dependencies are extracted and stored
  in \<^verbatim>\<open>file.cssDependencies\<close>. Returns the options, the dependencies and the state.
  Loading the compiler module on first use (lines 108 to 110) is not modelled.\<close>

definition prepare ::
  "'c host \<Rightarrow> SassPluginOptions \<Rightarrow> 'c world \<Rightarrow> render_options \<times> string list \<times> 'c world" where
  "prepare h this_options w =
     (let options = build_options h this_options w;
          xo = build_extract_options options w
      in case extractCSSDependencies h xo (the_file w, ctx w) of
           (deps, f, x) \<Rightarrow>
             (options, deps,
              w\<lparr>the_file := f\<lparr>cssDependencies := deps\<rparr>, ctx := x,
                calls := calls w @ [ExtractCSSDependencies xo]\<rparr>))"

text \<open>The message of line 172.\<close>

definition error_message :: "File \<Rightarrow> sass_error \<Rightarrow> string" where
  "error_message f err =
     (let errorFile = (if err_file err = ''stdin'' then absPath f else err_file err)
      in err_message err @ ''\<newline>      at '' @ errorFile @ '':'' @ decimal (err_line err) @
         '':'' @ decimal (err_column err))"

text \<open>
  Lines 168 to 184: the callback of \<^verbatim>\<open>sass.render\<close>, with the state the promise ends in.
  \<open>deps\<close> is the variable \<^verbatim>\<open>cssDependencies\<close> of line 159.
\<close>

definition render_callback ::
  "'c host \<Rightarrow> string list \<Rightarrow> render_outcome \<Rightarrow> 'c world \<Rightarrow> promise \<times> 'c world" where
  "render_callback h deps outcome w =
     (case outcome of
        NoCallback \<Rightarrow> (Pending, w)
      | RenderError err \<Rightarrow>
          (let msg = error_message (the_file w) err;
               w1 = w\<lparr>the_file := (the_file w)\<lparr>contents := []\<rparr>\<rparr>
           in (Resolved, invoke (AddError msg) (addError msg) w1))
      | RenderResult result \<Rightarrow>
          (let w1 = w\<lparr>the_file := (the_file w)\<lparr>sourceMap := result_map result,
                                      contents := result_css result\<rparr>\<rparr>
           in if useCache (ctx w1) then
                (let w2 = w1\<lparr>the_file := (the_file w1)\<lparr>analysis_dependencies := deps\<rparr>\<rparr>;
                     w3 = invoke (WriteStaticCache (the_file w2) (sourceMap (the_file w2)) ''sass'')
                            (writeStaticCache h (sourceMap (the_file w2)) ''sass'') w2
                 in (Resolved, w3\<lparr>the_file := (the_file w3)\<lparr>analysis_dependencies := []\<rparr>\<rparr>))
              else (Resolved, w1)))"

text \<open>Lines 108 to 186: the compiler is called with the options and the promise is
  returned; the state is the one the callback leaves.\<close>

definition compile :: "'c host \<Rightarrow> SassPluginOptions \<Rightarrow> 'c world \<Rightarrow> return_value \<times> 'c world" where
  "compile h this_options w =
     (case prepare h this_options w of
        (options, deps, w1) \<Rightarrow>
          (case render_callback h deps (render h options)
                  (w1\<lparr>calls := calls w1 @ [Render options]\<rparr>) of
             (p, w2) \<Rightarrow> (Promise p, w2)))"

text \<open>\<^verbatim>\<open>transform(file)\<close>\<close>

definition transform :: "'c host \<Rightarrow> SassPluginOptions \<Rightarrow> 'c world \<Rightarrow> return_value \<times> 'c world" where
  "transform h this_options w =
     (case cache_check h w of
        (cached, w1) \<Rightarrow>
          if cached then (Undefined, w1)
          else
            (let w2 = mark_and_load h w1
             in if contents (the_file w2) = [] then (Undefined, w2)
                else compile h this_options w2))"

text \<open>
  A host whose loader, dependency extraction and cache write leave the flag
  \<^verbatim>\<open>bustCSSCache\<close> of the file as it is.
\<close>

definition keeps_bustCSSCache :: "'c host \<Rightarrow> bool" where
  "keeps_bustCSSCache h =
     ((\<forall>hp. bustCSSCache (fst (loadContents h hp)) = bustCSSCache (fst hp)) \<and>
      (\<forall>xo hp. bustCSSCache (fst (snd (extractCSSDependencies h xo hp))) = bustCSSCache (fst hp)) \<and>
      (\<forall>sm ty hp. bustCSSCache (fst (writeStaticCache h sm ty hp)) = bustCSSCache (fst hp)))"

section \<open>Example hosts\<close>

text \<open>A file \<^verbatim>\<open>main.scss\<close> of a project in \<^verbatim>\<open>/proj/src\<close>, not yet loaded.\<close>

definition example_file :: File where
  "example_file =
     \<lparr>contents = [], absPath = ''/proj/src/main.scss'',
      info = \<lparr>fuseBoxPath = ''main.scss'', absDir = ''/proj/src''\<rparr>,
      bustCSSCache = False, cssDependencies = [], sourceMap = None,
      analysis_dependencies = [], errors = []\<rparr>"

definition example_world :: "unit world" where
  "example_world =
     \<lparr>the_file = example_file,
      ctx = \<lparr>homeDir = ''/proj/src'', appRoot = ''/proj'', useCache = True, internals = ()\<rparr>,
      calls = []\<rparr>"

definition no_options :: SassPluginOptions where
  "no_options =
     \<lparr>includePaths = None, macros = None, importer = ImporterUnset, cache = None,
      indentedSyntax = None, resources = None, sass_functions = None\<rparr>"

text \<open>
  A host whose cache answers \<open>cached\<close>, whose loader finds the text \<open>loaded\<close> and whose
  compiler ends in \<open>outcome\<close>. The string dependency is added to the dependencies of the
  analysis, as the name of \<^verbatim>\<open>addStringDependency\<close> says; one dependency is extracted.
\<close>

definition example_host :: "bool \<Rightarrow> string \<Rightarrow> render_outcome \<Rightarrow> unit host" where
  "example_host cached loaded outcome =
     \<lparr>addStringDependency =
        (\<lambda>name (f, x). (f\<lparr>analysis_dependencies := analysis_dependencies f @ [name]\<rparr>, x)),
      isCSSCached = (\<lambda>type hp. (cached, hp)),
      loadContents = (\<lambda>(f, x). (f\<lparr>contents := loaded\<rparr>, x)),
      extractCSSDependencies = (\<lambda>xo hp. ([''/proj/src/_vars.scss''], hp)),
      render = (\<lambda>options. outcome),
      writeStaticCache = (\<lambda>sm type hp. hp),
      NODE_MODULES_DIR = ''node_modules''\<rparr>"

definition example_error :: sass_error where
  "example_error =
     \<lparr>err_message = ''Undefined variable'', err_file = ''stdin'', err_line = 12, err_column = 7\<rparr>"

definition example_result :: sass_result where
  "example_result = \<lparr>result_css = ''.a{color:red}'', result_map = Some ''{}''\<rparr>"

section \<open>Evaluating the model\<close>

text \<open>The definitions that a concrete run of \<^verbatim>\<open>read\<close> unfolds.\<close>

lemmas run_defs = fetchFile_def with_extension_def match_all_def match_here_def
  match_target_def match_quoted_def match_bare_def is_space_def import_step_def
  pathInImport_def pathToRead_def path_join_def normalize_def normalizeString_def
  normalize_segment_def trim_def slice_1_m1_def Let_def

section \<open>Facts about the string primitives\<close>

lemma js_replace_absent: "\<not> sublist pat s \<Longrightarrow> js_replace s pat rep = s"
proof (induction s)
  case Nil
  then show ?case by auto
next
  case (Cons c cs)
  have "\<not> prefix pat (c # cs)"
    using Cons.prems prefix_imp_sublist by blast
  moreover have "\<not> sublist pat cs"
    using Cons.prems by (auto simp: sublist_Cons_right)
  ultimately show ?case
    using Cons.IH by simp
qed


text \<open>No proper end of a text can start an occurrence of \<^verbatim>\<open>.scss\<close> that runs into a
  following \<^verbatim>\<open>.scss\<close>: the extension has a single dot, at its front.\<close>

lemma scss_no_border:
  assumes "prefix ''.scss'' (xs @ ''.scss'')" and "xs \<noteq> []"
  shows "prefix ''.scss'' xs"
proof -
  obtain a as where 1: "xs = a # as"
    using assms(2) by (cases xs) auto
  show ?thesis
  proof (cases as)
    case Nil
    then show ?thesis using assms(1) 1 by simp
  next
    case (Cons b bs)
    note 2 = this
    show ?thesis
    proof (cases bs)
      case Nil
      then show ?thesis using assms(1) 1 2 by simp
    next
      case (Cons c cs)
      note 3 = this
      show ?thesis
      proof (cases cs)
        case Nil
        then show ?thesis using assms(1) 1 2 3 by simp
      next
        case (Cons d ds)
        note 4 = this
        show ?thesis
        proof (cases ds)
          case Nil
          then show ?thesis using assms(1) 1 2 3 4 by simp
        next
          case (Cons e es)
          then show ?thesis using assms(1) 1 2 3 4 by auto
        qed
      qed
    qed
  qed
qed

lemma js_replace_scss_extension:
  "\<not> sublist ''.scss'' stem \<Longrightarrow>
   js_replace (stem @ ''.scss'') ''.scss'' ''.sass'' = stem @ ''.sass''"
proof (induction stem)
  case Nil
  then show ?case by simp
next
  case (Cons c cs)
  have "\<not> prefix ''.scss'' (c # cs)"
    using Cons.prems prefix_imp_sublist by blast
  then have "\<not> prefix ''.scss'' ((c # cs) @ ''.scss'')"
    using scss_no_border by blast
  then have "js_replace ((c # cs) @ ''.scss'') ''.scss'' ''.sass'' =
             c # js_replace (cs @ ''.scss'') ''.scss'' ''.sass''"
    by (simp only: append_Cons js_replace.simps if_False)
  moreover have "\<not> sublist ''.scss'' cs"
    using Cons.prems by (auto simp: sublist_Cons_right)
  ultimately show ?case
    using Cons.IH by simp
qed

section \<open>fetchFile: the fallback\<close>

text \<open>
  C4, as stated, fails. The claim lets a missing \<^verbatim>\<open>dir/sub/partial.sass\<close> fall back to
  \<^verbatim>\<open>dir/sub/partial.scss\<close>. In a directory that holds only the \<^verbatim>\<open>.scss\<close> file,
  \<^verbatim>\<open>fetchFile\<close> reads the \<^verbatim>\<open>.sass\<close> path twice and returns the empty text: the
  fallback replaces \<^verbatim>\<open>.scss\<close> by \<^verbatim>\<open>.sass\<close> and never the other way round.
\<close>

theorem fetchFile_sass_to_scss_counterexample:
  "fs_scss_only ''dir/sub/partial.scss'' = Contents ''.p{}'' \<and>
   fetchFile fs_scss_only ''dir/sub/partial.sass'' =
     ([''dir/sub/partial.sass'', ''dir/sub/partial.sass''], Inr [])"
  by (simp add: fetchFile_def fs_scss_only_def Let_def)

text \<open>
  C4, amended. For every path, \<^verbatim>\<open>fetchFile\<close> reads the path first. When that read
  succeeds it returns the text, after one read. When it fails with a code other than
  \<^verbatim>\<open>ENOENT\<close> the error is thrown, after one read. When it fails with \<^verbatim>\<open>ENOENT\<close>
  there is exactly one more read, of the path with its first \<^verbatim>\<open>.scss\<close> replaced by
  \<^verbatim>\<open>.sass\<close>, and the result is the text of that read or, when it fails for whatever
  reason, the empty text, with nothing thrown. The replaced path swaps the extension of a
  path that ends in \<^verbatim>\<open>.scss\<close> (no \<^verbatim>\<open>.scss\<close> before it), and is the path itself when
  it holds no \<^verbatim>\<open>.scss\<close>, as for a path ending in \<^verbatim>\<open>.sass\<close>.
\<close>

theorem fetchFile_fallback:
  "(fs path = Contents c \<longrightarrow> fetchFile fs path = ([path], Inr c)) \<and>
   (fs path = Failure code \<and> code \<noteq> ''ENOENT'' \<longrightarrow> fetchFile fs path = ([path], Inl code)) \<and>
   (fs path = Failure ''ENOENT'' \<longrightarrow>
      fst (fetchFile fs path) = [path, js_replace path ''.scss'' ''.sass''] \<and>
      snd (fetchFile fs path) =
        Inr (case fs (js_replace path ''.scss'' ''.sass'') of
               Contents c' \<Rightarrow> c'
             | Failure code' \<Rightarrow> [])) \<and>
   (\<not> sublist ''.scss'' stem \<longrightarrow>
      js_replace (stem @ ''.scss'') ''.scss'' ''.sass'' = stem @ ''.sass'') \<and>
   (\<not> sublist ''.scss'' path \<longrightarrow> js_replace path ''.scss'' ''.sass'' = path)"
proof (intro conjI impI)
  assume "fs path = Contents c"
  then show "fetchFile fs path = ([path], Inr c)"
    by (simp add: fetchFile_def)
next
  assume "fs path = Failure code \<and> code \<noteq> ''ENOENT''"
  then show "fetchFile fs path = ([path], Inl code)"
    by (simp add: fetchFile_def)
next
  assume "fs path = Failure ''ENOENT''"
  then show "fst (fetchFile fs path) = [path, js_replace path ''.scss'' ''.sass'']"
    by (simp add: fetchFile_def Let_def split: read_result.splits)
next
  assume "fs path = Failure ''ENOENT''"
  then show "snd (fetchFile fs path) =
        Inr (case fs (js_replace path ''.scss'' ''.sass'') of
               Contents c' \<Rightarrow> c'
             | Failure code' \<Rightarrow> [])"
    by (simp add: fetchFile_def Let_def split: read_result.splits)
next
  assume "\<not> sublist ''.scss'' stem"
  then show "js_replace (stem @ ''.scss'') ''.scss'' ''.sass'' = stem @ ''.sass''"
    by (rule js_replace_scss_extension)
next
  assume "\<not> sublist ''.scss'' path"
  then show "js_replace path ''.scss'' ''.sass'' = path"
    by (rule js_replace_absent)
qed

text \<open>
  The missing \<^verbatim>\<open>dir/sub/partial.scss\<close> of the claim: the fallback reads
  \<^verbatim>\<open>dir/sub/partial.sass\<close> and returns its text.
\<close>

theorem fetchFile_fallback_witness:
  "fetchFile fs_sass_only ''dir/sub/partial.scss'' =
     ([''dir/sub/partial.scss'', ''dir/sub/partial.sass''], Inr ''.q{}'')"
proof -
  have miss: "fs_sass_only ''dir/sub/partial.scss'' = Failure ''ENOENT''"
    by (simp add: fs_sass_only_def)
  have stem: "\<not> sublist ''.scss'' ''dir/sub/partial''"
    by (simp add: sublist_Cons_right)
  have alt: "js_replace (''dir/sub/partial'' @ ''.scss'') ''.scss'' ''.sass'' =
             ''dir/sub/partial'' @ ''.sass''"
    using fetchFile_fallback [of fs_sass_only "''dir/sub/partial.scss''" "[]" "[]"
        "''dir/sub/partial''"] stem
    by blast
  have "fst (fetchFile fs_sass_only ''dir/sub/partial.scss'') =
          [''dir/sub/partial.scss'', js_replace ''dir/sub/partial.scss'' ''.scss'' ''.sass'']"
    and "snd (fetchFile fs_sass_only ''dir/sub/partial.scss'') =
          Inr (case fs_sass_only (js_replace ''dir/sub/partial.scss'' ''.scss'' ''.sass'') of
                 Contents c' \<Rightarrow> c'
               | Failure code' \<Rightarrow> [])"
    using fetchFile_fallback [of fs_sass_only "''dir/sub/partial.scss''" "[]" "[]"
        "''dir/sub/partial''"] miss
    by blast+
  then show ?thesis
    using alt by (simp add: prod_eq_iff fs_sass_only_def)
qed

section \<open>read: a file without imports\<close>

text \<open>
  C6, as stated, fails. A file of two lines and no import is returned after the prefix
  with its line break in place, not with the line break removed.
\<close>

theorem read_keeps_line_breaks_counterexample:
  "read 1 fs_two_lines ''/proj'' ''a.scss'' ''P'' = Some (Inr ''P.a{}\<newline>.b{}'') \<and>
   ''P'' @ strip_line_breaks ''.a{}\<newline>.b{}'' = ''P.a{}.b{}''"
  by (simp add: fs_two_lines_def fetchFile_def with_extension_def match_all_def
      match_here_def strip_line_breaks_def)

text \<open>
  With an import the line breaks stay as well: the loop computes the text without them
  and keeps the text with them.
\<close>

lemma read_import_keeps_line_breaks:
  "read 2 fs_lines_and_import ''/proj'' ''a.scss'' [] = Some (Inr ''.a{}\<newline>\<newline>.x{}.b{}'')"
  by (simp add: fs_lines_and_import_def run_defs numeral_2_eq_2)

text \<open>
  C6, amended. For every text without a match of the import pattern, \<^verbatim>\<open>read\<close> returns
  the supplied prefix followed by the text exactly as fetched, line breaks included.
\<close>

theorem read_without_imports:
  assumes "snd (fetchFile fs (with_extension entry)) = Inr fetched"
    and "match_all fetched = []"
  shows "read (Suc depth) fs cwd entry acc = Some (Inr (acc @ fetched))"
  using assms by simp

theorem read_without_imports_witness:
  "read (Suc 0) fs_two_lines ''/proj'' ''a.scss'' ''P'' = Some (Inr (''P'' @ ''.a{}\<newline>.b{}''))"
proof -
  have 1: "snd (fetchFile fs_two_lines (with_extension ''a.scss'')) = Inr ''.a{}\<newline>.b{}''"
    by (simp add: fs_two_lines_def fetchFile_def with_extension_def)
  have 2: "match_all ''.a{}\<newline>.b{}'' = []"
    by (simp add: match_all_def match_here_def)
  show ?thesis
    by (rule read_without_imports [OF 1 2])
qed

section \<open>read: the prefix and the children\<close>

lemma import_step_eq:
  "import_step rd cwd parts s cur =
     (case rd (pathToRead cwd parts (pathInImport s)) of
        None \<Rightarrow> None
      | Some (Inl e) \<Rightarrow> Some (Inl e)
      | Some (Inr child) \<Rightarrow> Some (Inr (trim (js_replace cur (s @ '';'') []) @ child)))"
  by (simp add: import_step_def Let_def)

lemma forEach_import_step:
  "forEach (import_step rd cwd parts) stmts cur =
     (case read_children rd (map (\<lambda>s. pathToRead cwd parts (pathInImport s)) stmts) of
        None \<Rightarrow> None
      | Some (Inl e) \<Rightarrow> Some (Inl e)
      | Some (Inr children) \<Rightarrow> Some (Inr (splice cur (zip stmts children))))"
proof (induction stmts arbitrary: cur)
  case Nil
  show ?case by simp
next
  case (Cons s ss)
  have step: "import_step rd cwd parts s cur =
     (case rd (pathToRead cwd parts (pathInImport s)) of
        None \<Rightarrow> None
      | Some (Inl e) \<Rightarrow> Some (Inl e)
      | Some (Inr child) \<Rightarrow> Some (Inr (trim (js_replace cur (s @ '';'') []) @ child)))"
    by (rule import_step_eq)
  show ?case
    unfolding forEach.simps list.map read_children.simps step
    by (simp add: Cons.IH split: option.splits sum.splits)
qed

lemma read_prefix: "read depth fs cwd p acc = Some (Inr out) \<Longrightarrow> prefix acc out"
  by (cases depth) (auto simp: Let_def split: sum.splits option.splits)

text \<open>
  The bound on the depth of the recursion decides only whether \<^verbatim>\<open>read\<close> gets to its
  end: an outcome reached within one bound is the outcome within every larger one.
\<close>

lemma forEach_mono:
  assumes "\<And>x s r. g x s = Some r \<Longrightarrow> g' x s = Some r"
  shows "forEach g xs s = Some r \<Longrightarrow> forEach g' xs s = Some r"
proof (induction xs arbitrary: s)
  case Nil
  then show ?case by simp
next
  case (Cons x xs)
  show ?case
  proof (cases "g x s")
    case None
    then show ?thesis using Cons.prems by simp
  next
    case (Some a)
    then have g': "g' x s = Some a" by (rule assms)
    show ?thesis
    proof (cases a)
      case (Inl e)
      then show ?thesis using Cons.prems Some g' by auto
    next
      case (Inr s')
      then have "forEach g xs s' = Some r" using Cons.prems Some by simp
      then have "forEach g' xs s' = Some r" by (rule Cons.IH)
      then show ?thesis using Inr g' by simp
    qed
  qed
qed

lemma import_step_mono:
  assumes "\<And>p r. rd p = Some r \<Longrightarrow> rd' p = Some r"
  shows "import_step rd cwd parts x s = Some r \<Longrightarrow> import_step rd' cwd parts x s = Some r"
proof -
  assume a: "import_step rd cwd parts x s = Some r"
  then obtain c where "rd (pathToRead cwd parts (pathInImport x)) = Some c"
    by (cases "rd (pathToRead cwd parts (pathInImport x))") (auto simp: import_step_eq)
  moreover from this have "rd' (pathToRead cwd parts (pathInImport x)) = Some c"
    by (rule assms)
  ultimately show ?thesis
    using a by (simp add: import_step_eq)
qed

lemma read_Suc: "read depth fs cwd entry acc = Some r \<Longrightarrow> read (Suc depth) fs cwd entry acc = Some r"
proof (induction depth arbitrary: entry r)
  case 0
  then show ?case by simp
next
  case (Suc depth)
  let ?parts = "butlast (split CHR ''/'' entry)"
  show ?case
  proof (cases "snd (fetchFile fs (with_extension entry))")
    case (Inl e)
    then have "read (Suc depth) fs cwd entry acc = Some (Inl e)"
      and "read (Suc (Suc depth)) fs cwd entry acc = Some (Inl e)"
      by simp_all
    then show ?thesis
      using Suc.prems by simp
  next
    case (Inr fetched)
    have step: "\<And>x s r. import_step (\<lambda>p. read depth fs cwd p acc) cwd ?parts x s = Some r \<Longrightarrow>
        import_step (\<lambda>p. read (Suc depth) fs cwd p acc) cwd ?parts x s = Some r"
      using import_step_mono [of "\<lambda>p. read depth fs cwd p acc" "\<lambda>p. read (Suc depth) fs cwd p acc"]
        Suc.IH by blast
    obtain res where f: "forEach (import_step (\<lambda>p. read depth fs cwd p acc) cwd ?parts)
        (match_all fetched) fetched = Some res"
      using Suc.prems Inr by (auto simp: Let_def split: option.splits)
    have "forEach (import_step (\<lambda>p. read (Suc depth) fs cwd p acc) cwd ?parts)
        (match_all fetched) fetched = Some res"
      by (rule forEach_mono
          [where g = "import_step (\<lambda>p. read depth fs cwd p acc) cwd ?parts", OF step f])
    then show ?thesis
      using Suc.prems Inr f by (simp add: Let_def)
  qed
qed

lemma read_depth_mono: "read depth fs cwd entry acc = Some r \<Longrightarrow> read (depth + k) fs cwd entry acc = Some r"
  by (induction k) (auto dest: read_Suc)

text \<open>
  C1, as stated, fails. The prefix does not occur once, at the front: \<^verbatim>\<open>read\<close> hands
  it to every recursive call, and each call returns it in front of the child's text. For
  \<^verbatim>\<open>a.scss\<close> importing \<^verbatim>\<open>b\<close> importing \<^verbatim>\<open>c\<close> and the prefix \<^verbatim>\<open>P\<close>, the output
  holds \<^verbatim>\<open>P\<close> three times; it is not \<^verbatim>\<open>P\<close> followed by the output for the empty
  prefix.
\<close>

theorem read_prefix_once_counterexample:
  "read 3 fs_chain ''/proj'' ''a.scss'' ''P'' = Some (Inr ''P.a{}P.b{}P.c{}'') \<and>
   read 3 fs_chain ''/proj'' ''a.scss'' [] = Some (Inr ''.a{}.b{}.c{}'')"
  by (simp add: fs_chain_def run_defs numeral_3_eq_3)

text \<open>
  C1, amended. For every file path and prefix, \<^verbatim>\<open>read\<close> throws the error of the fetch,
  or else reads the targets of the import statements in source order, each with the
  same prefix, and stops at the first child that does not return. When all return, the
  result is the prefix followed by the processed text: the fetched text in which, for each
  statement in turn, the first occurrence of the statement with a semicolon is removed,
  the text is trimmed, and the child's output is appended at the end. Every child's
  output starts with the prefix again.
\<close>

theorem read_inlines_children:
  "read (Suc depth) fs cwd entry acc =
     (case snd (fetchFile fs (with_extension entry)) of
        Inl e \<Rightarrow> Some (Inl e)
      | Inr fetched \<Rightarrow>
          (case read_children (\<lambda>p. read depth fs cwd p acc)
                  (map (\<lambda>s. pathToRead cwd (butlast (split CHR ''/'' entry)) (pathInImport s))
                     (match_all fetched)) of
             None \<Rightarrow> None
           | Some (Inl e) \<Rightarrow> Some (Inl e)
           | Some (Inr children) \<Rightarrow>
               Some (Inr (acc @ splice fetched (zip (match_all fetched) children)))))
   \<and> (\<forall>p out. read depth fs cwd p acc = Some (Inr out) \<longrightarrow> prefix acc out)"
proof
  show "read (Suc depth) fs cwd entry acc =
     (case snd (fetchFile fs (with_extension entry)) of
        Inl e \<Rightarrow> Some (Inl e)
      | Inr fetched \<Rightarrow>
          (case read_children (\<lambda>p. read depth fs cwd p acc)
                  (map (\<lambda>s. pathToRead cwd (butlast (split CHR ''/'' entry)) (pathInImport s))
                     (match_all fetched)) of
             None \<Rightarrow> None
           | Some (Inl e) \<Rightarrow> Some (Inl e)
           | Some (Inr children) \<Rightarrow>
               Some (Inr (acc @ splice fetched (zip (match_all fetched) children)))))"
  proof (cases "snd (fetchFile fs (with_extension entry))")
    case (Inl e)
    then show ?thesis by simp
  next
    case (Inr fetched)
    then show ?thesis
      by (simp add: Let_def forEach_import_step split: option.splits sum.splits)
  qed
  show "\<forall>p out. read depth fs cwd p acc = Some (Inr out) \<longrightarrow> prefix acc out"
    using read_prefix by blast
qed

text \<open>
  For \<^verbatim>\<open>a.scss\<close> importing \<^verbatim>\<open>b\<close> importing \<^verbatim>\<open>c\<close>: the text of \<^verbatim>\<open>c\<close> stands
  inside the contribution of \<^verbatim>\<open>b\<close>, which stands at the end of the text of \<^verbatim>\<open>a\<close>,
  each child after the prefix.
\<close>

theorem read_inlines_children_witness:
  "read (Suc 2) fs_chain ''/proj'' ''a.scss'' ''P'' = Some (Inr ''P.a{}P.b{}P.c{}'') \<and>
   prefix ''P'' ''P.b{}P.c{}''"
proof -
  have b: "read 2 fs_chain ''/proj'' ''/proj/b'' ''P'' = Some (Inr ''P.b{}P.c{}'')"
    by (simp add: fs_chain_def run_defs numeral_2_eq_2)
  then have "prefix ''P'' ''P.b{}P.c{}''"
    using read_inlines_children [of 2 fs_chain "''/proj''" "''a.scss''" "''P''"] by blast
  moreover have "read (Suc 2) fs_chain ''/proj'' ''a.scss'' ''P'' = Some (Inr ''P.a{}P.b{}P.c{}'')"
    unfolding read_inlines_children [of 2 fs_chain "''/proj''" "''a.scss''" "''P''", THEN conjunct1]
    by (simp add: fs_chain_def run_defs numeral_2_eq_2)
  ultimately show ?thesis
    by simp
qed

section \<open>read: an import without a semicolon\<close>

lemma match_quoted_Some:
  assumes "match_quoted q s = Some m"
  shows "\<exists>cs. s = q # cs \<and> dropWhile (\<lambda>x. x \<noteq> q) cs \<noteq> []
    \<and> m = q # takeWhile (\<lambda>x. x \<noteq> q) cs @ [q]"
proof (cases s)
  case Nil
  then show ?thesis using assms by (simp add: match_quoted_def)
next
  case (Cons c cs)
  then show ?thesis using assms by (simp add: match_quoted_def split: if_splits)
qed

lemma match_quoted_prefix:
  assumes "match_quoted q s = Some m"
  shows "prefix m s \<and> m \<noteq> [] \<and> last m = q"
proof -
  obtain cs where s: "s = q # cs"
    and dw: "dropWhile (\<lambda>x. x \<noteq> q) cs \<noteq> []"
    and m: "m = q # takeWhile (\<lambda>x. x \<noteq> q) cs @ [q]"
    using match_quoted_Some [OF assms] by blast
  have "\<not> (hd (dropWhile (\<lambda>x. x \<noteq> q) cs) \<noteq> q)"
    using dw by (rule hd_dropWhile)
  then obtain rest where "dropWhile (\<lambda>x. x \<noteq> q) cs = q # rest"
    using dw by (cases "dropWhile (\<lambda>x. x \<noteq> q) cs") simp_all
  then have "takeWhile (\<lambda>x. x \<noteq> q) cs @ q # rest = cs"
    using takeWhile_dropWhile_id [of "\<lambda>x. x \<noteq> q" cs] by simp
  then have "s = m @ rest"
    using s m by simp
  then show ?thesis
    using m by (simp add: prefix_def)
qed

lemma match_bare_prefix:
  assumes "match_bare s = Some m"
  shows "prefix m s \<and> m \<noteq> [] \<and> \<not> is_space (last m)"
proof -
  let ?P = "\<lambda>c. \<not> is_space c \<and> c \<noteq> CHR '';''"
  have m: "m = takeWhile ?P s" and ne: "m \<noteq> []"
    using assms by (simp_all add: match_bare_def split: if_splits)
  have "last m \<in> set (takeWhile ?P s)"
    using m ne last_in_set by blast
  then have "?P (last m)"
    by (rule set_takeWhileD [THEN conjunct2])
  moreover have "s = m @ dropWhile ?P s"
    using m by simp
  then have "prefix m s"
    by (metis prefixI)
  ultimately show ?thesis
    using ne by simp
qed

lemma match_target_prefix:
  assumes "match_target s = Some m"
  shows "prefix m s \<and> m \<noteq> [] \<and> \<not> is_space (last m)"
proof -
  have q1: "\<not> is_space (CHR 0x27)" and q2: "\<not> is_space (CHR 0x22)"
    by (simp_all add: is_space_def)
  from assms consider
    "match_quoted (CHR 0x27) s = Some m" | "match_quoted (CHR 0x22) s = Some m" | "match_bare s = Some m"
    by (auto simp: match_target_def split: option.splits)
  then show ?thesis
  proof cases
    case 1
    then show ?thesis using match_quoted_prefix [OF 1] q1 by simp
  next
    case 2
    then show ?thesis using match_quoted_prefix [OF 2] q2 by simp
  next
    case 3
    then show ?thesis by (rule match_bare_prefix)
  qed
qed

lemma match_here_Some:
  assumes "match_here s = Some m"
  shows "\<exists>t. prefix ''@import'' s \<and> match_target (dropWhile is_space (drop 7 s)) = Some t \<and>
     m = ''@import'' @ takeWhile is_space (drop 7 s) @ t"
  using assms by (simp add: match_here_def split: if_splits option.splits)

lemma match_here_prefix:
  assumes "match_here s = Some m"
  shows "prefix m s \<and> m \<noteq> [] \<and> \<not> is_space (hd m) \<and> \<not> is_space (last m)"
proof -
  obtain t where p: "prefix ''@import'' s"
    and t: "match_target (dropWhile is_space (drop 7 s)) = Some t"
    and m: "m = ''@import'' @ takeWhile is_space (drop 7 s) @ t"
    using match_here_Some [OF assms] by blast
  from p obtain r where s: "s = ''@import'' @ r"
    by (auto simp: prefix_def)
  then have r: "drop 7 s = r" by simp
  obtain u where u: "dropWhile is_space r = t @ u" and tne: "t \<noteq> []" and tl: "\<not> is_space (last t)"
    using match_target_prefix [OF t] r by (auto simp: prefix_def)
  have "takeWhile is_space r @ t @ u = r"
    using u takeWhile_dropWhile_id [of is_space r] by simp
  then have "s = m @ u"
    using s m r by simp
  then have "prefix m s"
    by (metis prefixI)
  moreover have "\<not> is_space (hd m)" using m by (simp add: is_space_def)
  moreover have "last m = last t" using m tne by simp
  ultimately show ?thesis
    using tl m by simp
qed

lemma scan_sublist: "m \<in> set (scan skip s) \<Longrightarrow> sublist m s"
proof (induction skip s rule: scan.induct)
  case (1 skip)
  then show ?case by simp
next
  case (2 skip c cs)
  then show ?case by (auto simp: sublist_Cons_right)
next
  case (3 c cs)
  show ?case
  proof (cases "match_here (c # cs)")
    case None
    then have "m \<in> set (scan 0 cs)"
      using "3.prems" by simp
    then have "sublist m cs"
      using "3.IH"(1) None by blast
    then show ?thesis by (simp add: sublist_Cons_right)
  next
    case (Some a)
    then have "m = a \<or> m \<in> set (scan (length a - 1) cs)"
      using "3.prems" by simp
    then show ?thesis
    proof
      assume "m = a"
      then show ?thesis using match_here_prefix [OF Some] by (simp add: prefix_imp_sublist)
    next
      assume "m \<in> set (scan (length a - 1) cs)"
      then have "sublist m cs"
        using "3.IH"(2) Some by blast
      then show ?thesis by (simp add: sublist_Cons_right)
    qed
  qed
qed

lemma scan_ends: "m \<in> set (scan skip s) \<Longrightarrow> m \<noteq> [] \<and> \<not> is_space (hd m) \<and> \<not> is_space (last m)"
proof (induction skip s rule: scan.induct)
  case (1 skip)
  then show ?case by simp
next
  case (2 skip c cs)
  then show ?case by simp
next
  case (3 c cs)
  show ?case
  proof (cases "match_here (c # cs)")
    case None
    then have "m \<in> set (scan 0 cs)"
      using "3.prems" by simp
    then show ?thesis
      using "3.IH"(1) None by blast
  next
    case (Some a)
    then have "m = a \<or> m \<in> set (scan (length a - 1) cs)"
      using "3.prems" by simp
    then show ?thesis
    proof
      assume "m = a"
      then show ?thesis using match_here_prefix [OF Some] by simp
    next
      assume "m \<in> set (scan (length a - 1) cs)"
      then show ?thesis
        using "3.IH"(2) Some by blast
    qed
  qed
qed

lemma dropWhile_keeps:
  assumes "s = pre @ m @ post" and "m \<noteq> []" and "\<not> P (hd m)"
  shows "\<exists>pre'. dropWhile P s = pre' @ m @ post"
proof (cases "\<forall>x \<in> set pre. P x")
  case True
  then have "dropWhile P s = dropWhile P (m @ post)"
    using assms(1) by (simp add: dropWhile_append2)
  also have "\<dots> = m @ post"
    using assms(2,3) by (cases m) auto
  finally show ?thesis by (metis append_Nil)
next
  case False
  then obtain x where "x \<in> set pre" "\<not> P x" by blast
  then have "dropWhile P s = dropWhile P pre @ m @ post"
    using assms(1) by (simp add: dropWhile_append1)
  then show ?thesis by blast
qed

lemma trim_keeps:
  assumes "sublist m s" and "m \<noteq> []" and "\<not> is_space (hd m)" and "\<not> is_space (last m)"
  shows "sublist m (trim s)"
proof -
  obtain pre post where "s = pre @ m @ post"
    using assms(1) by (auto simp: sublist_def)
  then obtain pre' where 1: "dropWhile is_space s = pre' @ m @ post"
    using dropWhile_keeps assms(2,3) by blast
  have "rev (dropWhile is_space s) = rev post @ rev m @ rev pre'"
    using 1 by simp
  moreover have "rev m \<noteq> []" "\<not> is_space (hd (rev m))"
    using assms(2,4) by (simp_all add: hd_rev)
  ultimately obtain post' where "dropWhile is_space (rev (dropWhile is_space s)) = post' @ rev m @ rev pre'"
    using dropWhile_keeps by blast
  then have "trim s = pre' @ m @ rev post'"
    by (simp add: trim_def)
  then show ?thesis
    by (auto simp: sublist_def)
qed

text \<open>
  C10, as stated, fails. In \<^verbatim>\<open>@import x@import x@import;\<close> the pattern matches once,
  \<^verbatim>\<open>@import x@import\<close>, and a space follows the match, not a semicolon. The removal
  looks for the matched text with a semicolon anywhere in the working text and finds it
  nine characters further on, overlapping the directive: the output is \<^verbatim>\<open>@import x\<close>,
  and the directive is not left in place.
\<close>

theorem read_unterminated_import_counterexample:
  "match_all ''@import x@import x@import;'' = [''@import x@import''] \<and>
   ''@import x@import x@import;'' = ''@import x@import'' @ '' x@import;'' \<and>
   read 2 fs_overlap ''/proj'' ''a.scss'' [] = Some (Inr ''@import x'') \<and>
   \<not> sublist ''@import x@import'' ''@import x''"
  by (simp add: fs_overlap_def run_defs sublist_Cons_right numeral_2_eq_2)

text \<open>
  C10, amended. For every working text and every import statement such that the
  statement followed by a semicolon occurs nowhere in the working text, the step of the
  loop still resolves the target and makes the recursive call, and when the child returns
  the working text is left as it was but for the trimming, with the child's output at its
  end. For a source text whose only import statement is of that kind, \<^verbatim>\<open>read\<close> returns
  the prefix, the trimmed source and the child's output, and the directive stands in the
  trimmed source.
\<close>

theorem read_keeps_unterminated_import:
  assumes "\<not> sublist (importStatement @ '';'') working"
  shows "import_step rd cwd parts importStatement working =
           (case rd (pathToRead cwd parts (pathInImport importStatement)) of
              None \<Rightarrow> None
            | Some (Inl e) \<Rightarrow> Some (Inl e)
            | Some (Inr child) \<Rightarrow> Some (Inr (trim working @ child))) \<and>
         (snd (fetchFile fs (with_extension entry)) = Inr working \<and>
          match_all working = [importStatement] \<longrightarrow>
            read (Suc depth) fs cwd entry acc =
              (case read depth fs cwd
                      (pathToRead cwd (butlast (split CHR ''/'' entry))
                         (pathInImport importStatement))
                      acc of
                 None \<Rightarrow> None
               | Some (Inl e) \<Rightarrow> Some (Inl e)
               | Some (Inr child) \<Rightarrow> Some (Inr (acc @ trim working @ child))) \<and>
            sublist importStatement (trim working))"
proof (intro conjI impI)
  have kept: "js_replace working (importStatement @ '';'') [] = working"
    using assms by (rule js_replace_absent)
  show step: "import_step rd cwd parts importStatement working =
           (case rd (pathToRead cwd parts (pathInImport importStatement)) of
              None \<Rightarrow> None
            | Some (Inl e) \<Rightarrow> Some (Inl e)
            | Some (Inr child) \<Rightarrow> Some (Inr (trim working @ child)))"
    for rd :: "string \<Rightarrow> string outcome" and parts
    unfolding import_step_eq kept by (rule refl)
  assume a: "snd (fetchFile fs (with_extension entry)) = Inr working \<and>
          match_all working = [importStatement]"
  show "read (Suc depth) fs cwd entry acc =
              (case read depth fs cwd
                      (pathToRead cwd (butlast (split CHR ''/'' entry))
                         (pathInImport importStatement))
                      acc of
                 None \<Rightarrow> None
               | Some (Inl e) \<Rightarrow> Some (Inl e)
               | Some (Inr child) \<Rightarrow> Some (Inr (acc @ trim working @ child)))"
    using a by (simp add: Let_def step split: option.splits sum.splits)
  have "importStatement \<in> set (scan 0 working)"
    using a by (simp add: match_all_def)
  then show "sublist importStatement (trim working)"
    using scan_sublist scan_ends trim_keeps by blast
qed

theorem read_keeps_unterminated_import_witness:
  "read (Suc (Suc 0)) fs_unterminated ''/proj'' ''a.scss'' ''P'' =
     Some (Inr ''P.a{} @import \"b\" .x{}P.b{}'') \<and>
   sublist ''@import \"b\"'' (trim ''.a{} @import \"b\" .x{}'')"
proof -
  have 1: "snd (fetchFile fs_unterminated (with_extension ''a.scss'')) =
      Inr ''.a{} @import \"b\" .x{}''"
    by (simp add: fs_unterminated_def run_defs)
  have 2: "match_all ''.a{} @import \"b\" .x{}'' = [''@import \"b\"'']"
    by (simp add: run_defs)
  have 3: "\<not> sublist (''@import \"b\"'' @ '';'') ''.a{} @import \"b\" .x{}''"
    by (simp add: sublist_Cons_right)
  have 4: "read (Suc 0) fs_unterminated ''/proj''
             (pathToRead ''/proj'' (butlast (split CHR ''/'' ''a.scss''))
                (pathInImport ''@import \"b\"'')) ''P'' = Some (Inr ''P.b{}'')"
    by (simp add: fs_unterminated_def run_defs)
  have 5: "trim ''.a{} @import \"b\" .x{}'' = ''.a{} @import \"b\" .x{}''"
    by (simp add: run_defs)
  have "read (Suc (Suc 0)) fs_unterminated ''/proj'' ''a.scss'' ''P'' =
          (case read (Suc 0) fs_unterminated ''/proj''
                  (pathToRead ''/proj'' (butlast (split CHR ''/'' ''a.scss''))
                     (pathInImport ''@import \"b\"'')) ''P'' of
             None \<Rightarrow> None
           | Some (Inl e) \<Rightarrow> Some (Inl e)
           | Some (Inr child) \<Rightarrow> Some (Inr (''P'' @ trim ''.a{} @import \"b\" .x{}'' @ child)))"
    and "sublist ''@import \"b\"'' (trim ''.a{} @import \"b\" .x{}'')"
    using read_keeps_unterminated_import
      [OF 3, where fs = fs_unterminated and entry = "''a.scss''" and depth = "Suc 0"
        and cwd = "''/proj''" and acc = "''P''"] 1 2
    by blast+
  then show ?thesis
    unfolding 4 5 by simp
qed

section \<open>read: resolving an import target\<close>
































section \<open>transform: the stages\<close>

lemma the_file_invoke: "the_file (invoke c method w) = fst (method (the_file w, ctx w))"
  by (simp add: invoke_def split: prod.splits)

lemma ctx_invoke: "ctx (invoke c method w) = snd (method (the_file w, ctx w))"
  by (simp add: invoke_def split: prod.splits)

lemma calls_invoke: "calls (invoke c method w) = calls w @ [c]"
  by (simp add: invoke_def split: prod.splits)

lemma the_file_prepare:
  "the_file (snd (snd (prepare h this_options w))) =
     (fst (snd (extractCSSDependencies h
                  (build_extract_options (build_options h this_options w) w)
                  (the_file w, ctx w))))
     \<lparr>cssDependencies :=
        fst (extractCSSDependencies h
               (build_extract_options (build_options h this_options w) w)
               (the_file w, ctx w))\<rparr>"
  by (simp add: prepare_def Let_def split: prod.splits)

lemma cache_check_calls:
  "calls (snd (cache_check h w)) =
     calls w @ [AddStringDependency ''fuse-box-css'', IsCSSCached ''sass'']"
  by (simp add: cache_check_def invoke_def Let_def split: prod.splits)

lemma cache_check_heap:
  "(the_file (snd (cache_check h w)), ctx (snd (cache_check h w))) =
     snd (isCSSCached h ''sass'' (addStringDependency h ''fuse-box-css'' (the_file w, ctx w)))"
  by (simp add: cache_check_def invoke_def Let_def split: prod.splits)

lemma transform_hit:
  "fst (cache_check h w) \<Longrightarrow> transform h this_options w = (Undefined, snd (cache_check h w))"
  by (cases "cache_check h w") (simp add: transform_def)

lemma transform_miss:
  "\<not> fst (cache_check h w) \<Longrightarrow>
   transform h this_options w =
     (let w2 = mark_and_load h (snd (cache_check h w))
      in if contents (the_file w2) = [] then (Undefined, w2) else compile h this_options w2)"
  by (cases "cache_check h w") (simp add: transform_def)

lemma compile_eq:
  assumes "prepare h this_options w = (options, deps, w1)"
  shows "compile h this_options w =
           (Promise (fst (render_callback h deps (render h options)
                            (w1\<lparr>calls := calls w1 @ [Render options]\<rparr>))),
            snd (render_callback h deps (render h options)
                   (w1\<lparr>calls := calls w1 @ [Render options]\<rparr>)))"
  by (simp add: compile_def assms case_prod_beta)

lemma transform_compiles:
  assumes "\<not> fst (cache_check h w)"
    and "contents (the_file (mark_and_load h (snd (cache_check h w)))) \<noteq> []"
    and "prepare h this_options (mark_and_load h (snd (cache_check h w))) = (options, deps, w1)"
  shows "transform h this_options w =
           (Promise (fst (render_callback h deps (render h options)
                            (w1\<lparr>calls := calls w1 @ [Render options]\<rparr>))),
            snd (render_callback h deps (render h options)
                   (w1\<lparr>calls := calls w1 @ [Render options]\<rparr>)))"
  using assms by (simp add: transform_miss compile_eq Let_def)

lemma render_callback_promise: "fst (render_callback h deps outcome w) \<noteq> Rejected e"
  by (simp add: render_callback_def Let_def split: render_outcome.splits)

lemma compile_promise: "fst (compile h this_options w) \<noteq> Promise (Rejected e)"
proof -
  obtain options deps w1 where p: "prepare h this_options w = (options, deps, w1)"
    by (cases "prepare h this_options w") auto
  show ?thesis
    by (simp add: compile_eq [OF p] render_callback_promise)
qed

section \<open>transform: a valid cache\<close>

text \<open>
  C7, as stated, fails. The pass is not free of effects on the file: the string
  dependency of line 96 is added before the check, on a hit as on a miss. With a host
  that keeps the string dependencies in the dependencies of the analysis, a file that has
  none has one after a pass that hits the cache.
\<close>

theorem transform_cache_hit_counterexample:
  "fst (cache_check (example_host True ''.a{}'' NoCallback) example_world) \<and>
   analysis_dependencies (the_file example_world) = [] \<and>
   analysis_dependencies
     (the_file (snd (transform (example_host True ''.a{}'' NoCallback) no_options example_world))) =
     [''fuse-box-css'']"
  by (simp add: transform_def cache_check_def invoke_def example_host_def example_world_def
      example_file_def Let_def)

text \<open>
  C7, amended. When the cache check reports the cached artifact valid, \<^verbatim>\<open>transform\<close>
  does nothing after the check: it returns at once. The calls of the pass are the two
  that come with the check (the string dependency of line 96, before it, and
  \<^verbatim>\<open>isCSSCached\<close>): the compiler, the dependency extraction and the loader are not
  called, and the file and its context are as those two calls left them, \<^verbatim>\<open>transform\<close>
  writing no field of its own.
\<close>

theorem transform_cache_hit:
  assumes "fst (cache_check h w)"
  shows "transform h this_options w = (Undefined, snd (cache_check h w)) \<and>
         calls (snd (transform h this_options w)) =
           calls w @ [AddStringDependency ''fuse-box-css'', IsCSSCached ''sass''] \<and>
         (the_file (snd (transform h this_options w)), ctx (snd (transform h this_options w))) =
           snd (isCSSCached h ''sass'' (addStringDependency h ''fuse-box-css'' (the_file w, ctx w)))"
proof -
  have t: "transform h this_options w = (Undefined, snd (cache_check h w))"
    using assms by (rule transform_hit)
  show ?thesis
    unfolding t using cache_check_calls [of h w] cache_check_heap [of h w] by simp
qed

theorem transform_cache_hit_witness:
  "transform (example_host True ''.a{}'' (RenderResult example_result)) no_options example_world =
     (Undefined,
      example_world
        \<lparr>the_file := example_file\<lparr>analysis_dependencies := [''fuse-box-css'']\<rparr>,
          calls := [AddStringDependency ''fuse-box-css'', IsCSSCached ''sass'']\<rparr>)"
proof -
  let ?h = "example_host True ''.a{}'' (RenderResult example_result)"
  have hit: "fst (cache_check ?h example_world)"
    by (simp add: cache_check_def invoke_def example_host_def Let_def)
  have "snd (cache_check ?h example_world) =
      example_world
        \<lparr>the_file := example_file\<lparr>analysis_dependencies := [''fuse-box-css'']\<rparr>,
          calls := [AddStringDependency ''fuse-box-css'', IsCSSCached ''sass'']\<rparr>"
    by (simp add: cache_check_def invoke_def example_host_def example_world_def
        example_file_def Let_def)
  then show ?thesis
    using transform_cache_hit [OF hit, of no_options] by simp
qed

section \<open>transform: the cache-bust flag\<close>

text \<open>
  C8, as stated, fails. On a hit \<^verbatim>\<open>transform\<close> returns on line 100, before the
  assignment of line 102: a flag that is false stays false.
\<close>

theorem transform_flag_on_hit_counterexample:
  "fst (cache_check (example_host True ''.a{}'' NoCallback) example_world) \<and>
   \<not> bustCSSCache (the_file example_world) \<and>
   \<not> bustCSSCache (the_file (snd (transform (example_host True ''.a{}'' NoCallback) no_options
                                     example_world)))"
  by (simp add: transform_def cache_check_def invoke_def example_host_def example_world_def
      example_file_def Let_def)

text \<open>
  C8, amended. When the check reports a miss, the flag is set to true immediately after
  the check, before the contents are loaded, and if the methods called later (the loader,
  the dependency extraction, the cache write) leave the flag alone it is true when
  \<^verbatim>\<open>transform\<close> is done. When the check reports a hit, \<^verbatim>\<open>transform\<close> leaves the flag as
  the check left it.
\<close>

theorem transform_flag_on_miss:
  "(\<not> fst (cache_check h w) \<longrightarrow>
      transform h this_options w =
        (let w2 = invoke LoadContents (loadContents h)
                    ((snd (cache_check h w))
                       \<lparr>the_file := (the_file (snd (cache_check h w)))\<lparr>bustCSSCache := True\<rparr>\<rparr>)
         in if contents (the_file w2) = [] then (Undefined, w2) else compile h this_options w2)) \<and>
   (\<not> fst (cache_check h w) \<and> keeps_bustCSSCache h \<longrightarrow>
      bustCSSCache (the_file (snd (transform h this_options w)))) \<and>
   (fst (cache_check h w) \<longrightarrow>
      bustCSSCache (the_file (snd (transform h this_options w))) =
      bustCSSCache (the_file (snd (cache_check h w))))"
proof (intro conjI impI)
  assume "\<not> fst (cache_check h w)"
  then show "transform h this_options w =
        (let w2 = invoke LoadContents (loadContents h)
                    ((snd (cache_check h w))
                       \<lparr>the_file := (the_file (snd (cache_check h w)))\<lparr>bustCSSCache := True\<rparr>\<rparr>)
         in if contents (the_file w2) = [] then (Undefined, w2) else compile h this_options w2)"
    by (simp add: transform_miss mark_and_load_def)
next
  assume a: "\<not> fst (cache_check h w) \<and> keeps_bustCSSCache h"
  define w2 where "w2 = mark_and_load h (snd (cache_check h w))"
  have k1: "\<And>hp. bustCSSCache (fst (loadContents h hp)) = bustCSSCache (fst hp)"
    and k2: "\<And>xo hp. bustCSSCache (fst (snd (extractCSSDependencies h xo hp))) = bustCSSCache (fst hp)"
    and k3: "\<And>sm ty hp. bustCSSCache (fst (writeStaticCache h sm ty hp)) = bustCSSCache (fst hp)"
    using a by (auto simp: keeps_bustCSSCache_def)
  have f2: "bustCSSCache (the_file w2)"
    by (simp add: w2_def mark_and_load_def the_file_invoke k1)
  have prep: "bustCSSCache (the_file (snd (snd (prepare h this_options w2))))"
    using f2 by (simp add: the_file_prepare k2)
  have cb: "\<And>deps outcome v. bustCSSCache (the_file v) \<Longrightarrow>
      bustCSSCache (the_file (snd (render_callback h deps outcome v)))"
  proof -
    fix deps outcome and v :: "'a world"
    assume v: "bustCSSCache (the_file v)"
    show "bustCSSCache (the_file (snd (render_callback h deps outcome v)))"
    proof (cases outcome)
      case (RenderError err)
      then show ?thesis
        using v by (simp add: render_callback_def the_file_invoke addError_def Let_def)
    next
      case (RenderResult result)
      then show ?thesis
        using v by (simp add: render_callback_def the_file_invoke k3 Let_def)
    next
      case NoCallback
      then show ?thesis
        using v by (simp add: render_callback_def)
    qed
  qed
  obtain options deps w1 where p: "prepare h this_options w2 = (options, deps, w1)"
    by (cases "prepare h this_options w2") auto
  have "bustCSSCache (the_file (w1\<lparr>calls := calls w1 @ [Render options]\<rparr>))"
    using prep p by simp
  then have "bustCSSCache (the_file (snd (render_callback h deps (render h options)
      (w1\<lparr>calls := calls w1 @ [Render options]\<rparr>))))"
    by (rule cb)
  then have "bustCSSCache (the_file (snd (compile h this_options w2)))"
    by (simp add: compile_eq [OF p])
  then show "bustCSSCache (the_file (snd (transform h this_options w)))"
    using a f2 by (simp add: transform_miss w2_def Let_def)
next
  assume "fst (cache_check h w)"
  then show "bustCSSCache (the_file (snd (transform h this_options w))) =
      bustCSSCache (the_file (snd (cache_check h w)))"
    by (simp add: transform_hit)
qed

theorem transform_flag_on_miss_witness:
  "bustCSSCache
     (the_file (snd (transform (example_host False ''.a{}'' (RenderResult example_result)) no_options
                       example_world)))"
proof -
  let ?h = "example_host False ''.a{}'' (RenderResult example_result)"
  have miss: "\<not> fst (cache_check ?h example_world)"
    by (simp add: cache_check_def invoke_def example_host_def Let_def)
  have keeps: "keeps_bustCSSCache ?h"
    by (simp add: keeps_bustCSSCache_def example_host_def split: prod.splits)
  show ?thesis
    using transform_flag_on_miss [of ?h example_world no_options] miss keeps by blast
qed

section \<open>transform: a compile error\<close>

text \<open>
  C2. When the compiler reports an error (the cache check has reported a miss and the
  loaded contents are not empty, so that the compiler is called), the promise that
  \<^verbatim>\<open>transform\<close> returns is resolved, the contents of the file are the empty string, and
  the error list is the list as it was when the compiler was called with one message
  more: the compiler's message, a line break, six spaces, \<^verbatim>\<open>at\<close>, the origin, the line
  and the column, where the origin is the absolute path of the file when the compiler
  names \<^verbatim>\<open>stdin\<close> and the file the compiler names otherwise. \<^verbatim>\<open>addError\<close> is called
  once, after the compiler and last.
\<close>

theorem transform_compile_error:
  assumes "\<not> fst (cache_check h w)"
    and "contents (the_file (mark_and_load h (snd (cache_check h w)))) \<noteq> []"
    and "prepare h this_options (mark_and_load h (snd (cache_check h w))) = (options, deps, w1)"
    and "render h options = RenderError err"
  shows "fst (transform h this_options w) = Promise Resolved \<and>
         contents (the_file (snd (transform h this_options w))) = [] \<and>
         errors (the_file (snd (transform h this_options w))) =
           errors (the_file w1) @
           [err_message err @ ''\<newline>      at '' @
            (if err_file err = ''stdin'' then absPath (the_file w1) else err_file err) @
            '':'' @ decimal (err_line err) @ '':'' @ decimal (err_column err)] \<and>
         calls (snd (transform h this_options w)) =
           calls w1 @
           [Render options,
            AddError
              (err_message err @ ''\<newline>      at '' @
               (if err_file err = ''stdin'' then absPath (the_file w1) else err_file err) @
               '':'' @ decimal (err_line err) @ '':'' @ decimal (err_column err))]"
proof -
  have "transform h this_options w =
           (Promise (fst (render_callback h deps (RenderError err)
                            (w1\<lparr>calls := calls w1 @ [Render options]\<rparr>))),
            snd (render_callback h deps (RenderError err)
                   (w1\<lparr>calls := calls w1 @ [Render options]\<rparr>)))"
    using transform_compiles [OF assms(1,2,3)] assms(4) by simp
  then show ?thesis
    by (simp add: render_callback_def error_message_def invoke_def addError_def Let_def)
qed

theorem transform_compile_error_witness:
  "fst (transform (example_host False ''.a{color:$c}'' (RenderError example_error)) no_options
          example_world) = Promise Resolved \<and>
   contents (the_file (snd (transform (example_host False ''.a{color:$c}'' (RenderError example_error))
                              no_options example_world))) = [] \<and>
   errors (the_file (snd (transform (example_host False ''.a{color:$c}'' (RenderError example_error))
                            no_options example_world))) =
     [''Undefined variable\<newline>      at /proj/src/main.scss:12:7'']"
proof -
  let ?h = "example_host False ''.a{color:$c}'' (RenderError example_error)"
  let ?w2 = "mark_and_load ?h (snd (cache_check ?h example_world))"
  have miss: "\<not> fst (cache_check ?h example_world)"
    by (simp add: cache_check_def invoke_def example_host_def Let_def)
  have loaded: "contents (the_file ?w2) \<noteq> []"
    by (simp add: mark_and_load_def cache_check_def invoke_def example_host_def Let_def)
  obtain options deps w1 where prep: "prepare ?h no_options ?w2 = (options, deps, w1)"
    by (cases "prepare ?h no_options ?w2") auto
  have r: "render ?h options = RenderError example_error"
    by (simp add: example_host_def)
  have w1: "errors (the_file w1) = []" "absPath (the_file w1) = ''/proj/src/main.scss''"
    using prep
    by (auto simp: prepare_def mark_and_load_def cache_check_def invoke_def example_host_def
        example_world_def example_file_def Let_def split: prod.splits)
  have d: "decimal 12 = ''12''" "decimal 7 = ''7''"
    by (simp_all add: decimal.simps)
  show ?thesis
    using transform_compile_error [OF miss loaded prep r] w1 d
    by (simp add: example_error_def)
qed

section \<open>transform: the dependencies after a cache write\<close>

text \<open>
  C9, as stated, fails. The dependencies of the analysis are not empty outside the cache
  write only: line 179 overwrites what the field holds, and with a host that keeps the
  string dependency of line 96 there the field is not empty when the compiler is called,
  before the cache is written, in a pass that compiles and writes the cache.
\<close>

theorem transform_dependencies_before_write_counterexample:
  "analysis_dependencies
     (the_file (snd (snd (prepare (example_host False ''.a{color:red}'' (RenderResult example_result))
                            no_options
                            (mark_and_load
                               (example_host False ''.a{color:red}'' (RenderResult example_result))
                               (snd (cache_check
                                       (example_host False ''.a{color:red}''
                                          (RenderResult example_result))
                                       example_world))))))) = [''fuse-box-css''] \<and>
   last (calls (snd (transform (example_host False ''.a{color:red}'' (RenderResult example_result))
                       no_options example_world))) =
     WriteStaticCache
       (example_file
          \<lparr>contents := ''.a{color:red}'', bustCSSCache := True,
            cssDependencies := [''/proj/src/_vars.scss''], sourceMap := Some ''{}'',
            analysis_dependencies := [''/proj/src/_vars.scss'']\<rparr>)
       (Some ''{}'') ''sass''"
  by (simp add: transform_def compile_def render_callback_def prepare_def build_options_def
      build_extract_options_def mark_and_load_def cache_check_def invoke_def example_host_def
      example_world_def example_file_def example_result_def sassResources_def object_assign_def
      no_options_def Let_def)

text \<open>
  C9, amended. When the compiler succeeds and caching is on, whatever the dependencies
  of the analysis held before, they are set to the extracted dependencies for the cache
  write: the cache is written once, as the last call of the pass, with a file whose
  dependencies of the analysis are the extracted dependencies, whose contents are the
  compiled text and whose source map is the compiler's. They are reset right after the
  write: when \<^verbatim>\<open>transform\<close> is done the dependencies of the analysis are empty and the
  promise is resolved.
\<close>

theorem transform_clears_dependencies:
  assumes "\<not> fst (cache_check h w)"
    and "contents (the_file (mark_and_load h (snd (cache_check h w)))) \<noteq> []"
    and "prepare h this_options (mark_and_load h (snd (cache_check h w))) = (options, deps, w1)"
    and "render h options = RenderResult result"
    and "useCache (ctx w1)"
  shows "fst (transform h this_options w) = Promise Resolved \<and>
         analysis_dependencies (the_file (snd (transform h this_options w))) = [] \<and>
         calls (snd (transform h this_options w)) =
           calls w1 @
           [Render options,
            WriteStaticCache
              ((the_file w1)\<lparr>sourceMap := result_map result, contents := result_css result,
                 analysis_dependencies := deps\<rparr>)
              (result_map result) ''sass'']"
proof -
  have "transform h this_options w =
           (Promise (fst (render_callback h deps (RenderResult result)
                            (w1\<lparr>calls := calls w1 @ [Render options]\<rparr>))),
            snd (render_callback h deps (RenderResult result)
                   (w1\<lparr>calls := calls w1 @ [Render options]\<rparr>)))"
    using transform_compiles [OF assms(1,2,3)] assms(4) by simp
  then show ?thesis
    using assms(5)
    by (simp add: render_callback_def invoke_def Let_def split: prod.splits)
qed

theorem transform_clears_dependencies_witness:
  "fst (transform (example_host False ''.a{color:red}'' (RenderResult example_result)) no_options
          example_world) = Promise Resolved \<and>
   analysis_dependencies
     (the_file (snd (transform (example_host False ''.a{color:red}'' (RenderResult example_result))
                       no_options example_world))) = [] \<and>
   last (calls (snd (transform (example_host False ''.a{color:red}'' (RenderResult example_result))
                       no_options example_world))) =
     WriteStaticCache
       (example_file
          \<lparr>contents := ''.a{color:red}'', bustCSSCache := True,
            cssDependencies := [''/proj/src/_vars.scss''], sourceMap := Some ''{}'',
            analysis_dependencies := [''/proj/src/_vars.scss'']\<rparr>)
       (Some ''{}'') ''sass''"
proof -
  let ?h = "example_host False ''.a{color:red}'' (RenderResult example_result)"
  let ?w2 = "mark_and_load ?h (snd (cache_check ?h example_world))"
  have miss: "\<not> fst (cache_check ?h example_world)"
    by (simp add: cache_check_def invoke_def example_host_def Let_def)
  have loaded: "contents (the_file ?w2) \<noteq> []"
    by (simp add: mark_and_load_def cache_check_def invoke_def example_host_def Let_def)
  obtain options deps w1 where prep: "prepare ?h no_options ?w2 = (options, deps, w1)"
    by (cases "prepare ?h no_options ?w2") auto
  have r: "render ?h options = RenderResult example_result"
    by (simp add: example_host_def)
  have w1: "useCache (ctx w1)" "deps = [''/proj/src/_vars.scss'']"
    "the_file w1 = example_file
          \<lparr>contents := ''.a{color:red}'', bustCSSCache := True,
            cssDependencies := [''/proj/src/_vars.scss''],
            analysis_dependencies := [''fuse-box-css'']\<rparr>"
    using prep
    by (auto simp: prepare_def mark_and_load_def cache_check_def invoke_def example_host_def
        example_world_def example_file_def Let_def split: prod.splits)
  show ?thesis
    using transform_clears_dependencies [OF miss loaded prep r w1(1)] w1(2,3)
    by (simp add: example_result_def example_file_def)
qed

section \<open>transform: what is returned\<close>

text \<open>
  C3 fails on the code. On a cache hit, and when the loaded contents are empty,
  \<^verbatim>\<open>transform\<close> returns nothing (\<^verbatim>\<open>return;\<close> on lines 100 and 105), not a promise,
  against its declared type \<^verbatim>\<open>Promise<any>\<close>. Where it returns a promise (lines 167 to
  185), the promise is never rejected.
\<close>

theorem transform_returns_undefined:
  "(fst (cache_check h w) \<longrightarrow> fst (transform h this_options w) = Undefined) \<and>
   (\<not> fst (cache_check h w) \<and>
    contents (the_file (mark_and_load h (snd (cache_check h w)))) = [] \<longrightarrow>
      fst (transform h this_options w) = Undefined) \<and>
   fst (transform h this_options w) \<noteq> Promise (Rejected e)"
proof (intro conjI impI)
  assume "fst (cache_check h w)"
  then show "fst (transform h this_options w) = Undefined"
    by (simp add: transform_hit)
next
  assume "\<not> fst (cache_check h w) \<and>
    contents (the_file (mark_and_load h (snd (cache_check h w)))) = []"
  then show "fst (transform h this_options w) = Undefined"
    by (simp add: transform_miss)
next
  show "fst (transform h this_options w) \<noteq> Promise (Rejected e)"
  proof (cases "fst (cache_check h w)")
    case True
    then show ?thesis by (simp add: transform_hit)
  next
    case False
    then show ?thesis
      using compile_promise [of h this_options "mark_and_load h (snd (cache_check h w))" e]
      by (simp add: transform_miss Let_def)
  qed
qed

theorem transform_returns_undefined_witness:
  "fst (transform (example_host True ''.a{}'' NoCallback) no_options example_world) = Undefined \<and>
   fst (transform (example_host False [] NoCallback) no_options example_world) = Undefined"
proof -
  have hit: "fst (cache_check (example_host True ''.a{}'' NoCallback) example_world)"
    by (simp add: cache_check_def invoke_def example_host_def Let_def)
  have miss: "\<not> fst (cache_check (example_host False [] NoCallback) example_world)"
    by (simp add: cache_check_def invoke_def example_host_def Let_def)
  have empty: "contents (the_file (mark_and_load (example_host False [] NoCallback)
        (snd (cache_check (example_host False [] NoCallback) example_world)))) = []"
    by (simp add: mark_and_load_def cache_check_def invoke_def example_host_def Let_def)
  show ?thesis
    using transform_returns_undefined [of "example_host True ''.a{}'' NoCallback" example_world no_options]
      transform_returns_undefined [of "example_host False [] NoCallback" example_world no_options]
      hit miss empty
    by blast
qed

end
